theory Spec2Isabelle
  imports Main "HOL-Library.Word"
begin

section \<open>The frame buffer of \<open>src/lib/c/buffer.c\<close>\<close>

text \<open>
  A shallow embedding of the shared-memory ring of image frames. The C structs are
  records, \<open>uint64_t\<close> and \<open>size_t\<close> are 64-bit words (their arithmetic wraps as in C),
  an \<open>image\<close> is a byte, and memory that is addressed through a pointer and a length (the
  flexible array \<open>images[]\<close>, a payload, a frame's \<open>data\<close>) is a list of bytes, so that an
  access that leaves it is a branch of the model.
\<close>

subsection \<open>Constants and types of \<open>buffer.h\<close>\<close>

type_synonym uint64_t = "64 word"
type_synonym size_t = "64 word"
type_synonym image = "8 word"
type_synonym pid_t = int

definition BUFFER_COUNT :: nat where
  "BUFFER_COUNT = 3"

definition BLOCK_DIR :: string where
  "BLOCK_DIR = ''/dev/shm/buffer-''"

definition SUCCESS :: int where
  "SUCCESS = 0"

definition FRAME_SIZE_MISMATCH :: int where
  "FRAME_SIZE_MISMATCH = 1"

definition BLOCK_NOT_ACTIVE :: int where
  "BLOCK_NOT_ACTIVE = 2"

definition NO_NEW_FRAME :: int where
  "NO_NEW_FRAME = 3"

text \<open>
  What a call does instead of returning: it dereferences a null handle, it dereferences
  a pointer into memory that is not mapped, it copies beyond the end of an array, or it
  sleeps on a lock or a condition variable that is never released or signalled again.
\<close>

datatype fault = NULL_DEREFERENCE | INVALID_POINTER | OUT_OF_BOUNDS | WAITS_FOREVER

text \<open>
  A process-shared read-write lock: free, held by a number of readers, or held by the
  writer.
\<close>

datatype pthread_rwlock_t = Unlocked | Read_locked nat | Write_locked

record frame_metadata_t =
  frame_uid :: uint64_t
  acquisition_time :: uint64_t
  rwlock :: pthread_rwlock_t

record buffer_t =
  frame_cnt :: uint64_t
  width :: size_t
  height :: size_t
  depth :: size_t
  is_alive :: bool
  owner :: pid_t
  metadata :: "frame_metadata_t list"
  images :: "image list"

record frame_t =
  width :: size_t
  height :: size_t
  depth :: size_t
  acquisition_time :: uint64_t
  frame_uid :: uint64_t
  data :: "image list"

subsection \<open>Library calls\<close>

text \<open>
  \<open>pthread_rwlock_wrlock\<close> returns once the lock is free; \<open>None\<close> is a caller that
  sleeps. \<open>pthread_rwlock_tryrdlock\<close> never sleeps: it returns 0 and takes the lock in
  shared mode, or a nonzero error (\<open>EBUSY\<close>, 16) when the writer holds it.
\<close>

fun pthread_rwlock_wrlock :: "pthread_rwlock_t \<Rightarrow> pthread_rwlock_t option" where
  "pthread_rwlock_wrlock Unlocked = Some Write_locked"
| "pthread_rwlock_wrlock (Read_locked n) = None"
| "pthread_rwlock_wrlock Write_locked = None"

fun pthread_rwlock_tryrdlock :: "pthread_rwlock_t \<Rightarrow> int \<times> pthread_rwlock_t" where
  "pthread_rwlock_tryrdlock Unlocked = (0, Read_locked 1)"
| "pthread_rwlock_tryrdlock (Read_locked n) = (0, Read_locked (Suc n))"
| "pthread_rwlock_tryrdlock Write_locked = (16, Write_locked)"

fun pthread_rwlock_unlock :: "pthread_rwlock_t \<Rightarrow> pthread_rwlock_t" where
  "pthread_rwlock_unlock (Read_locked (Suc (Suc n))) = Read_locked (Suc n)"
| "pthread_rwlock_unlock l = Unlocked"

text \<open>
  \<open>memcpy dst doff src soff n\<close> copies \<open>n\<close> bytes from offset \<open>soff\<close> of \<open>src\<close> to offset
  \<open>doff\<close> of \<open>dst\<close>; \<open>None\<close> is a copy that reads or writes outside the arrays.
\<close>

definition memcpy :: "image list \<Rightarrow> nat \<Rightarrow> image list \<Rightarrow> nat \<Rightarrow> nat \<Rightarrow> image list option" where
  "memcpy dst doff src soff n =
     (if doff + n \<le> length dst \<and> soff + n \<le> length src
      then Some (take doff dst @ take n (drop soff src) @ drop (doff + n) dst)
      else None)"

text \<open>
  \<open>realloc\<close> keeps the old bytes up to the new size. The bytes it adds are indeterminate
  in C; they are 0 here, and no statement below depends on them.
\<close>

definition realloc :: "image list \<Rightarrow> nat \<Rightarrow> image list" where
  "realloc p n = take n p @ replicate (n - length p) 0"

subsection \<open>Sizes\<close>

definition buffer_image_size :: "buffer_t \<Rightarrow> size_t" where
  "buffer_image_size b = buffer_t.width b * buffer_t.height b * buffer_t.depth b"

definition frame_image_size :: "frame_t \<Rightarrow> size_t" where
  "frame_image_size f = frame_t.width f * frame_t.height f * frame_t.depth f"

text \<open>\<open>sizeof(buffer_t)\<close> on LP64 Linux with glibc; only \<open>buffer_size\<close> uses it.\<close>

definition sizeof_buffer_t :: size_t where
  "sizeof_buffer_t = 344"

definition buffer_size :: "size_t \<Rightarrow> size_t \<Rightarrow> size_t \<Rightarrow> size_t" where
  "buffer_size weight height' depth' =
     sizeof_buffer_t + (weight * height' * depth' * of_nat BUFFER_COUNT)"

subsection \<open>\<open>write_frame\<close>\<close>

text \<open>
  The handle is only dereferenced to its region, so the region is the argument. The
  index of the slot is the local variable \<open>buffer_to_write_to\<close>. No other process runs
  during the call: a slot lock that is held when the call takes it is never released.
  The broadcast that ends the call changes no field of the region.
\<close>

definition buffer_to_write_to :: "buffer_t \<Rightarrow> nat" where
  "buffer_to_write_to buffer = unat ((frame_cnt buffer + 1) mod of_nat BUFFER_COUNT)"

definition write_frame ::
  "buffer_t \<Rightarrow> size_t \<Rightarrow> size_t \<Rightarrow> size_t \<Rightarrow> uint64_t \<Rightarrow> image list \<Rightarrow> fault + (int \<times> buffer_t)" where
  "write_frame buffer width' height' depth' acquisition_time' data' =
     (if buffer_t.width buffer \<noteq> width' \<or> buffer_t.height buffer \<noteq> height' \<or>
         buffer_t.depth buffer \<noteq> depth'
      then Inr (FRAME_SIZE_MISMATCH, buffer)
      else if \<not> is_alive buffer then Inr (BLOCK_NOT_ACTIVE, buffer)
      else if BUFFER_COUNT \<le> buffer_to_write_to buffer \<or>
              length (metadata buffer) \<le> buffer_to_write_to buffer
      then Inl OUT_OF_BOUNDS
      else
        (case pthread_rwlock_wrlock (rwlock (metadata buffer ! buffer_to_write_to buffer)) of
           None \<Rightarrow> Inl WAITS_FOREVER
         | Some locked \<Rightarrow>
             (case memcpy (images buffer)
                     (unat (buffer_image_size buffer * of_nat (buffer_to_write_to buffer)))
                     data' 0 (unat (buffer_image_size buffer)) of
                None \<Rightarrow> Inl OUT_OF_BOUNDS
              | Some images' \<Rightarrow>
                  Inr (SUCCESS,
                       buffer\<lparr>frame_cnt := frame_cnt buffer + 1,
                              metadata := (metadata buffer)[buffer_to_write_to buffer :=
                                \<lparr>frame_metadata_t.frame_uid = frame_cnt buffer + 1,
                                 frame_metadata_t.acquisition_time = acquisition_time',
                                 rwlock = pthread_rwlock_unlock locked\<rparr>],
                              images := images'\<rparr>))))"

subsection \<open>\<open>read_frame\<close>\<close>

text \<open>The macro \<open>max\<close> of the source, on unsigned 64-bit values.\<close>

definition max_macro :: "uint64_t \<Rightarrow> uint64_t \<Rightarrow> uint64_t" where
  "max_macro a b = (if a > b then a else b)"

definition target_frame_uid :: "uint64_t \<Rightarrow> uint64_t \<Rightarrow> uint64_t" where
  "target_frame_uid newest_buffer last_buffer =
     (if newest_buffer < of_nat BUFFER_COUNT then last_buffer + 1
      else max_macro (last_buffer + 1) (newest_buffer - of_nat BUFFER_COUNT + 1))"

definition target_buffer :: "uint64_t \<Rightarrow> nat" where
  "target_buffer uid = unat (uid mod of_nat BUFFER_COUNT)"

text \<open>
  Lines 164 to 171: with the read lock of the slot held, copy the slot's metadata and
  bytes into the frame.
\<close>

definition copy_out :: "buffer_t \<Rightarrow> nat \<Rightarrow> frame_t \<Rightarrow> fault + (int \<times> frame_t)" where
  "copy_out buffer slot frame =
     (case memcpy (data frame) 0 (images buffer)
             (unat (frame_image_size frame * of_nat slot)) (unat (frame_image_size frame)) of
        None \<Rightarrow> Inl OUT_OF_BOUNDS
      | Some copied \<Rightarrow>
          Inr (SUCCESS,
               frame\<lparr>frame_t.frame_uid := frame_metadata_t.frame_uid (metadata buffer ! slot),
                     frame_t.acquisition_time :=
                       frame_metadata_t.acquisition_time (metadata buffer ! slot),
                     data := copied\<rparr>))"

text \<open>
  Lines 153 to 171. The region is shared, so what \<open>pthread_cond_wait\<close> returns to is the
  region as the other processes have left it: \<open>wakes\<close> lists the states of the region at
  the successive returns of \<open>pthread_cond_wait\<close> in this call. A call that waits when no
  return is left sleeps for ever.
\<close>

fun read_locked :: "nat \<Rightarrow> buffer_t \<Rightarrow> buffer_t list \<Rightarrow> frame_t \<Rightarrow> fault + (int \<times> frame_t)" where
  "read_locked slot buffer wakes frame =
     (if BUFFER_COUNT \<le> slot \<or> length (metadata buffer) \<le> slot then Inl OUT_OF_BOUNDS
      else if fst (pthread_rwlock_tryrdlock (rwlock (metadata buffer ! slot))) \<noteq> 0 then
        (case wakes of
           [] \<Rightarrow> Inl WAITS_FOREVER
         | buffer' # wakes' \<Rightarrow>
             if \<not> is_alive buffer' then Inr (BLOCK_NOT_ACTIVE, frame)
             else read_locked slot buffer' wakes' frame)
      else copy_out buffer slot frame)"

text \<open>
  \<open>read_frame\<close>, lines 103 to 151 and then \<open>read_locked\<close>. The frame is resized and given
  the region's geometry before anything is tested. The target is computed once, from
  the counter at entry. A caught-up consumer that blocks waits once (line 142); when it
  wakes, \<open>is_alive\<close> is tested and the call goes on to the lock. The mutex and the
  condition variable have no state of their own here: the consumer holds the mutex
  except while it waits, and no writer needs it to write.
\<close>

definition read_frame ::
  "buffer_t \<Rightarrow> frame_t \<Rightarrow> bool \<Rightarrow> buffer_t list \<Rightarrow> fault + (int \<times> frame_t)" where
  "read_frame buffer frame0 block_thread wakes =
     (let frame = frame0\<lparr>data := realloc (data frame0) (unat (buffer_image_size buffer)),
                         frame_t.width := buffer_t.width buffer,
                         frame_t.height := buffer_t.height buffer,
                         frame_t.depth := buffer_t.depth buffer\<rparr>
      in if \<not> is_alive buffer then Inr (BLOCK_NOT_ACTIVE, frame)
         else if frame_t.frame_uid frame = frame_cnt buffer then
           (if block_thread then
              (case wakes of
                 [] \<Rightarrow> Inl WAITS_FOREVER
               | buffer' # wakes' \<Rightarrow>
                   if \<not> is_alive buffer' then Inr (BLOCK_NOT_ACTIVE, frame)
                   else read_locked
                          (target_buffer (target_frame_uid (frame_cnt buffer) (frame_t.frame_uid frame)))
                          buffer' wakes' frame)
            else Inr (NO_NEW_FRAME, frame))
         else read_locked
                (target_buffer (target_frame_uid (frame_cnt buffer) (frame_t.frame_uid frame)))
                buffer wakes frame)"

text \<open>
  \<open>create_frame\<close> allocates the frame and 8 bytes of data and sets the uid; the other
  fields keep what \<open>malloc\<close> returned, which is the argument.
\<close>

definition create_frame :: "frame_t \<Rightarrow> frame_t" where
  "create_frame uninitialised =
     uninitialised\<lparr>data := take 8 (data uninitialised @ replicate 8 0), frame_t.frame_uid := 0\<rparr>"

subsection \<open>Handles, files and processes\<close>

text \<open>
  The part of the operating system the lifecycle functions use: the names of the file
  system, the region stored in each file, the addresses at which files are mapped, the
  processes that exist, each with the user it runs as, and what was printed on the
  standard error stream. A handle holds the file name and the address of its mapping; a
  null handle is \<open>None\<close>.
\<close>

record block_t =
  filename :: string
  buffer :: nat

datatype diagnostic =
  Forbidden_slash | Already_exists | File_dne | Is_poisoned | Owner_must_destroy |
  Cannot_free_unpoisoned | Not_archived

record system =
  files :: "string \<rightharpoonup> nat"
  regions :: "nat \<rightharpoonup> buffer_t"
  mappings :: "nat \<rightharpoonup> nat"
  processes :: "pid_t \<rightharpoonup> nat"
  stderr :: "diagnostic list"
  next_file :: nat
  next_address :: nat

definition fprintf :: "system \<Rightarrow> diagnostic \<Rightarrow> system" where
  "fprintf sys msg = sys\<lparr>stderr := stderr sys @ [msg]\<rparr>"

text \<open>
  \<open>kill\<close> with the null signal, sent by process \<open>caller\<close>: nothing is delivered. It
  returns -1 when the process \<open>pid\<close> does not exist (\<open>ESRCH\<close>), and also when it exists
  but the caller is not permitted to signal it (\<open>EPERM\<close>): the caller is neither the
  superuser, user 0, nor the user of the target. Otherwise it returns 0. A process has
  one user here, which stands for its real, effective and saved user ids.
\<close>

definition kill :: "system \<Rightarrow> pid_t \<Rightarrow> pid_t \<Rightarrow> int \<Rightarrow> int" where
  "kill sys caller pid sig =
     (case processes sys pid of
        None \<Rightarrow> -1
      | Some target_user \<Rightarrow>
          (case processes sys caller of
             None \<Rightarrow> -1
           | Some user \<Rightarrow> if user = 0 \<or> user = target_user then 0 else -1))"

definition mmap :: "system \<Rightarrow> nat \<Rightarrow> nat \<times> system" where
  "mmap sys file =
     (next_address sys,
      sys\<lparr>mappings := (mappings sys)(next_address sys \<mapsto> file),
          next_address := Suc (next_address sys)\<rparr>)"

definition munmap :: "system \<Rightarrow> nat \<Rightarrow> system" where
  "munmap sys addr = sys\<lparr>mappings := (mappings sys)(addr := None)\<rparr>"

definition rename :: "system \<Rightarrow> string \<Rightarrow> string \<Rightarrow> int \<times> system" where
  "rename sys old new =
     (case files sys old of
        None \<Rightarrow> (-1, sys)
      | Some file \<Rightarrow> (0, sys\<lparr>files := (files sys)(old := None, new \<mapsto> file)\<rparr>))"

definition remove :: "system \<Rightarrow> string \<Rightarrow> system" where
  "remove sys path = sys\<lparr>files := (files sys)(path := None)\<rparr>"

text \<open>The region a mapped address points to, and a store through such a pointer.\<close>

definition region_at :: "system \<Rightarrow> nat \<Rightarrow> buffer_t option" where
  "region_at sys addr =
     (case mappings sys addr of None \<Rightarrow> None | Some file \<Rightarrow> regions sys file)"

definition store_region :: "system \<Rightarrow> nat \<Rightarrow> buffer_t \<Rightarrow> system" where
  "store_region sys addr b =
     (case mappings sys addr of
        None \<Rightarrow> sys
      | Some file \<Rightarrow> sys\<lparr>regions := (regions sys)(file \<mapsto> b)\<rparr>)"

definition file_address_from_direction :: "system \<Rightarrow> string \<Rightarrow> string option \<times> system" where
  "file_address_from_direction sys direction =
     (if CHR ''/'' \<in> set direction then (None, fprintf sys Forbidden_slash)
      else (Some (BLOCK_DIR @ direction), sys))"

definition new_block :: "string \<Rightarrow> nat \<Rightarrow> block_t" where
  "new_block filename' buffer' = \<lparr>filename = filename', buffer = buffer'\<rparr>"

text \<open>
  The region \<open>create_block\<close> leaves in the new file (lines 236 to 261): the file is
  extended with zero bytes to \<open>buffer_size\<close> bytes, then the header fields are set and
  the locks initialised. The images are what follows the header.
\<close>

definition new_region :: "pid_t \<Rightarrow> size_t \<Rightarrow> size_t \<Rightarrow> size_t \<Rightarrow> buffer_t" where
  "new_region pid width' height' depth' =
     \<lparr>frame_cnt = 0, buffer_t.width = width', buffer_t.height = height',
      buffer_t.depth = depth', is_alive = True, owner = pid,
      metadata = replicate BUFFER_COUNT
        \<lparr>frame_metadata_t.frame_uid = 0, frame_metadata_t.acquisition_time = 0,
         rwlock = Unlocked\<rparr>,
      images = replicate (unat (buffer_size width' height' depth') - unat sizeof_buffer_t) 0\<rparr>"

text \<open>
  \<open>create_block\<close>, called by process \<open>pid\<close>. Creating and extending the file are taken to
  succeed when the name is free.
\<close>

definition create_block ::
  "system \<Rightarrow> pid_t \<Rightarrow> string \<Rightarrow> size_t \<Rightarrow> size_t \<Rightarrow> size_t \<Rightarrow> block_t option \<times> system" where
  "create_block sys pid direction width' height' depth' =
     (case file_address_from_direction sys direction of
        (None, sys1) \<Rightarrow> (None, sys1)
      | (Some file_address, sys1) \<Rightarrow>
          if files sys1 file_address \<noteq> None then (None, fprintf sys1 Already_exists)
          else
            (case mmap
                    (sys1\<lparr>files := (files sys1)(file_address \<mapsto> next_file sys1),
                          regions := (regions sys1)
                            (next_file sys1 \<mapsto> new_region pid width' height' depth'),
                          next_file := Suc (next_file sys1)\<rparr>)
                    (next_file sys1) of
               (buffer', sys2) \<Rightarrow> (Some (new_block file_address buffer'), sys2)))"

definition open_block :: "system \<Rightarrow> string \<Rightarrow> block_t option \<times> system" where
  "open_block sys direction =
     (case file_address_from_direction sys direction of
        (None, sys1) \<Rightarrow> (None, sys1)
      | (Some file_address, sys1) \<Rightarrow>
          (case files sys1 file_address of
             None \<Rightarrow> (None, fprintf sys1 File_dne)
           | Some buffer_file \<Rightarrow>
               (case mmap sys1 buffer_file of
                  (buffer', sys2) \<Rightarrow> (Some (new_block file_address buffer'), sys2))))"

text \<open>\<open>block_is_poisoned\<close>, called by process \<open>pid\<close>, which is the sender of the signal.\<close>

definition block_is_poisoned ::
  "system \<Rightarrow> pid_t \<Rightarrow> block_t option \<Rightarrow> fault + (bool \<times> system)" where
  "block_is_poisoned sys pid block =
     (case block of
        None \<Rightarrow> Inl NULL_DEREFERENCE
      | Some blk \<Rightarrow>
          (case region_at sys (buffer blk) of
             None \<Rightarrow> Inl INVALID_POINTER
           | Some buffer' \<Rightarrow>
               (let owner_is_alive = (kill sys pid (owner buffer') 0 = 0);
                    is_poisoned = (\<not> owner_is_alive \<and> is_alive buffer')
                in Inr (is_poisoned, if is_poisoned then fprintf sys Is_poisoned else sys))))"

definition block_is_alive :: "system \<Rightarrow> block_t option \<Rightarrow> fault + bool" where
  "block_is_alive sys block =
     (case block of
        None \<Rightarrow> Inl NULL_DEREFERENCE
      | Some blk \<Rightarrow>
          (case region_at sys (buffer blk) of
             None \<Rightarrow> Inl INVALID_POINTER
           | Some buffer' \<Rightarrow> Inr (is_alive buffer')))"




definition archived :: string where
  "archived = ''-archived-random-name-so-no-direction-can-ever-be-like-this''"

text \<open>\<open>destroy_block\<close>, called by process \<open>pid\<close>, statement by statement.\<close>

definition destroy_block :: "system \<Rightarrow> pid_t \<Rightarrow> block_t option \<Rightarrow> fault + system" where
  "destroy_block sys pid block =
     (case block of
        None \<Rightarrow> Inl NULL_DEREFERENCE
      | Some blk \<Rightarrow>
          (case region_at sys (buffer blk) of
             None \<Rightarrow> Inl INVALID_POINTER
           | Some buffer' \<Rightarrow>
               (case block_is_poisoned sys pid block of
                  Inl f \<Rightarrow> Inl f
                | Inr (is_poisoned, sys1) \<Rightarrow>
                    (let is_owner = (pid = owner buffer');
                         sys2 = (if \<not> is_owner \<and> \<not> is_poisoned
                                 then fprintf sys1 Cannot_free_unpoisoned else sys1);
                         sys3 = store_region sys2 (buffer blk) (buffer'\<lparr>is_alive := False\<rparr>);
                         new_filename = filename blk @ archived;
                         sys4 = (case rename sys3 (filename blk) new_filename of
                                   (r, sys') \<Rightarrow> if r \<noteq> 0 then fprintf sys' Not_archived else sys');
                         sys5 = munmap sys4 (buffer blk);
                         sys6 = remove sys5 new_filename
                     in Inr sys6))))"

section \<open>Notions used in the statements\<close>

text \<open>
  The bytes of slot \<open>i\<close>, at the offset and with the size the two \<open>memcpy\<close> calls of the
  source compute.
\<close>

definition slot_image :: "buffer_t \<Rightarrow> nat \<Rightarrow> image list" where
  "slot_image b i =
     take (unat (buffer_image_size b))
       (drop (unat (buffer_image_size b * of_nat i)) (images b))"

text \<open>
  A region is well formed when it has \<open>BUFFER_COUNT\<close> metadata entries and its images
  are \<open>BUFFER_COUNT\<close> slots of \<open>width * height * depth\<close> bytes; its length is a \<open>size_t\<close>.
\<close>

definition wf_buffer :: "buffer_t \<Rightarrow> bool" where
  "wf_buffer b \<longleftrightarrow>
     length (metadata b) = BUFFER_COUNT \<and>
     length (images b) = BUFFER_COUNT * unat (buffer_image_size b) \<and>
     length (images b) < 2 ^ 64"

text \<open>The size \<open>buffer_size\<close> computes for the geometry does not overflow \<open>size_t\<close>.\<close>

definition geometry_fits :: "size_t \<Rightarrow> size_t \<Rightarrow> size_t \<Rightarrow> bool" where
  "geometry_fits w h d \<longleftrightarrow>
     unat w * unat h * unat d * BUFFER_COUNT + unat sizeof_buffer_t < 2 ^ 64"

text \<open>Two states of one region: the geometry and the sizes of the arrays agree.\<close>

definition same_region :: "buffer_t \<Rightarrow> buffer_t \<Rightarrow> bool" where
  "same_region b b' \<longleftrightarrow>
     buffer_t.width b' = buffer_t.width b \<and> buffer_t.height b' = buffer_t.height b \<and>
     buffer_t.depth b' = buffer_t.depth b \<and> length (metadata b') = length (metadata b) \<and>
     length (images b') = length (images b)"

text \<open>
  A sequence of successful publishes: the owner calls \<open>write_frame\<close> with the region's
  geometry, once for each acquisition time and payload of the list, and every call
  returns \<open>SUCCESS\<close>.
\<close>

fun publishes :: "buffer_t \<Rightarrow> (uint64_t \<times> image list) list \<Rightarrow> buffer_t option" where
  "publishes b [] = Some b"
| "publishes b (tp # ps) =
     (case write_frame b (buffer_t.width b) (buffer_t.height b) (buffer_t.depth b)
             (fst tp) (snd tp) of
        Inl f \<Rightarrow> None
      | Inr (status, b') \<Rightarrow> if status = SUCCESS then publishes b' ps else None)"

text \<open>The states a region goes through while the publishes \<open>ps\<close> are made.\<close>

definition snapshots :: "buffer_t \<Rightarrow> (uint64_t \<times> image list) list \<Rightarrow> buffer_t option list" where
  "snapshots b ps = map (\<lambda>n. publishes b (take n ps)) [0 ..< Suc (length ps)]"

text \<open>
  The region \<open>b\<close> records the history \<open>h\<close> of publishes: it is well formed, its counter
  is the number of publishes, every slot lock is free, and every slot either has never
  been written (its uid is 0 and no publish of the history went to it) or holds the
  uid, the acquisition time and the payload of the last publish that went to it.
\<close>

definition slot_ok :: "(uint64_t \<times> image list) list \<Rightarrow> buffer_t \<Rightarrow> nat \<Rightarrow> bool" where
  "slot_ok h b i \<longleftrightarrow>
     rwlock (metadata b ! i) = Unlocked \<and>
     (if frame_metadata_t.frame_uid (metadata b ! i) = 0
      then length h < (if i = 0 then BUFFER_COUNT else i)
      else unat (frame_metadata_t.frame_uid (metadata b ! i)) \<le> length h \<and>
           length h < unat (frame_metadata_t.frame_uid (metadata b ! i)) + BUFFER_COUNT \<and>
           unat (frame_metadata_t.frame_uid (metadata b ! i)) mod BUFFER_COUNT = i \<and>
           h ! (unat (frame_metadata_t.frame_uid (metadata b ! i)) - 1) =
             (frame_metadata_t.acquisition_time (metadata b ! i), slot_image b i))"

definition records :: "(uint64_t \<times> image list) list \<Rightarrow> buffer_t \<Rightarrow> bool" where
  "records h b \<longleftrightarrow>
     wf_buffer b \<and> unat (frame_cnt b) = length h \<and> (\<forall>i<BUFFER_COUNT. slot_ok h b i)"

text \<open>
  The target of a consumer in the words of the specification, for a ring of \<open>N\<close> slots,
  the consumer's high-water uid \<open>last_uid\<close> and the observed \<open>newest\<close>; uids are 64-bit.
\<close>

definition target_uid_spec :: "uint64_t \<Rightarrow> uint64_t \<Rightarrow> uint64_t \<Rightarrow> uint64_t" where
  "target_uid_spec N last_uid newest =
     (if newest < N then last_uid + 1 else max (last_uid + 1) (newest - N + 1))"

text \<open>
  The consumer's frame after lines 109 to 113 of \<open>read_frame\<close>: the data buffer has the
  size of an image of the region, and the geometry is the region's.
\<close>

definition resized :: "buffer_t \<Rightarrow> frame_t \<Rightarrow> frame_t" where
  "resized b f =
     f\<lparr>data := realloc (data f) (unat (buffer_image_size b)),
       frame_t.width := buffer_t.width b,
       frame_t.height := buffer_t.height b,
       frame_t.depth := buffer_t.depth b\<rparr>"

section \<open>Example states\<close>

text \<open>
  A region of geometry (1, 1, 1) owned by process 100, after the owner has published
  the one-byte images 1, 2 and 3 at times 7, 8 and 9, and a consumer's frame as
  \<open>create_frame\<close> returns it when the allocation holds zeros.
\<close>

definition region_2 :: buffer_t where
  "region_2 =
     \<lparr>frame_cnt = 2, buffer_t.width = 1, buffer_t.height = 1, buffer_t.depth = 1,
      is_alive = True, owner = 100,
      metadata =
        [\<lparr>frame_metadata_t.frame_uid = 0, frame_metadata_t.acquisition_time = 0,
          rwlock = Unlocked\<rparr>,
         \<lparr>frame_metadata_t.frame_uid = 1, frame_metadata_t.acquisition_time = 7,
          rwlock = Unlocked\<rparr>,
         \<lparr>frame_metadata_t.frame_uid = 2, frame_metadata_t.acquisition_time = 8,
          rwlock = Unlocked\<rparr>],
      images = [0, 1, 2]\<rparr>"

definition region_3 :: buffer_t where
  "region_3 =
     \<lparr>frame_cnt = 3, buffer_t.width = 1, buffer_t.height = 1, buffer_t.depth = 1,
      is_alive = True, owner = 100,
      metadata =
        [\<lparr>frame_metadata_t.frame_uid = 3, frame_metadata_t.acquisition_time = 9,
          rwlock = Unlocked\<rparr>,
         \<lparr>frame_metadata_t.frame_uid = 1, frame_metadata_t.acquisition_time = 7,
          rwlock = Unlocked\<rparr>,
         \<lparr>frame_metadata_t.frame_uid = 2, frame_metadata_t.acquisition_time = 8,
          rwlock = Unlocked\<rparr>],
      images = [3, 1, 2]\<rparr>"

definition zero_frame :: frame_t where
  "zero_frame =
     \<lparr>frame_t.width = 0, frame_t.height = 0, frame_t.depth = 0,
      frame_t.acquisition_time = 0, frame_t.frame_uid = 0, data = []\<rparr>"

definition frame_1 :: frame_t where
  "frame_1 =
     \<lparr>frame_t.width = 1, frame_t.height = 1, frame_t.depth = 1,
      frame_t.acquisition_time = 7, frame_t.frame_uid = 1, data = [1]\<rparr>"

definition frame_2 :: frame_t where
  "frame_2 =
     \<lparr>frame_t.width = 1, frame_t.height = 1, frame_t.depth = 1,
      frame_t.acquisition_time = 8, frame_t.frame_uid = 2, data = [2]\<rparr>"

definition frame_3 :: frame_t where
  "frame_3 =
     \<lparr>frame_t.width = 1, frame_t.height = 1, frame_t.depth = 1,
      frame_t.acquisition_time = 9, frame_t.frame_uid = 3, data = [3]\<rparr>"

text \<open>
  A system in which the processes 100 and 200 exist, both of user 1000, and nothing else
  has happened; the same after process 100 has created the region \<open>cam\<close> of geometry
  (1, 1, 1) and process 200 has opened it; the handle process 200 holds then; and the
  system after process 200 has gone on to change its user to 2000.
\<close>

definition booted :: system where
  "booted =
     \<lparr>files = Map.empty, regions = Map.empty, mappings = Map.empty,
      processes = [100 \<mapsto> 1000, 200 \<mapsto> 1000], stderr = [], next_file = 1,
      next_address = 1\<rparr>"

definition cam_system :: system where
  "cam_system = snd (open_block (snd (create_block booted 100 ''cam'' 1 1 1)) ''cam'')"

definition cam_reader :: block_t where
  "cam_reader = \<lparr>filename = ''/dev/shm/buffer-cam'', buffer = 2\<rparr>"

definition cam_system_other_user :: system where
  "cam_system_other_user = cam_system\<lparr>processes := (processes cam_system)(200 \<mapsto> 2000)\<rparr>"

section \<open>Arithmetic and memory lemmas\<close>

lemma unat_mult_small:
  fixes x y :: "64 word"
  shows "unat x * unat y < 2 ^ 64 \<Longrightarrow> unat (x * y) = unat x * unat y"
  using unat_mult_lem [of x y] by simp

lemma unat_mult3:
  fixes w h d :: "64 word"
  assumes "unat w * unat h * unat d < (2::nat) ^ 64"
  shows "unat (w * h * d) = unat w * unat h * unat d"
proof (cases "d = 0")
  case True
  then show ?thesis by simp
next
  case False
  then have "1 \<le> unat d" by (simp add: unat_gt_0 Suc_leI)
  then have "unat w * unat h \<le> unat w * unat h * unat d"
    by simp
  from this assms have "unat w * unat h < 2 ^ 64" by (rule le_less_trans)
  then have "unat (w * h) = unat w * unat h" by (rule unat_mult_small)
  with assms show ?thesis by (simp add: unat_mult_small)
qed

lemma length_new_region_images:
  assumes "geometry_fits w h d"
  shows "length (images (new_region pid w h d)) = BUFFER_COUNT * (unat w * unat h * unat d)"
proof -
  from assms have fit: "unat w * unat h * unat d * 3 + 344 < (2::nat) ^ 64"
    by (simp add: geometry_fits_def BUFFER_COUNT_def sizeof_buffer_t_def)
  then have p: "unat (w * h * d) = unat w * unat h * unat d"
    by (intro unat_mult3) simp
  have "unat (w * h * d) * unat (3 :: 64 word) < 2 ^ 64" using fit p by simp
  then have q: "unat (w * h * d * 3) = unat w * unat h * unat d * 3"
    using p by (simp add: unat_mult_small)
  have "unat (344 :: 64 word) + unat (w * h * d * 3) < 2 ^ 64" using fit q by simp
  then have "unat (344 + w * h * d * 3) = 344 + unat w * unat h * unat d * 3"
    using q unat_add_lem [of "344 :: 64 word" "w * h * d * 3"] by simp
  then show ?thesis
    by (simp add: new_region_def buffer_size_def sizeof_buffer_t_def BUFFER_COUNT_def)
qed

lemma wf_new_region:
  assumes "geometry_fits w h d"
  shows "wf_buffer (new_region pid w h d)"
proof -
  from assms have fit: "unat w * unat h * unat d * 3 + 344 < (2::nat) ^ 64"
    by (simp add: geometry_fits_def BUFFER_COUNT_def sizeof_buffer_t_def)
  then have p: "unat (w * h * d) = unat w * unat h * unat d"
    by (intro unat_mult3) simp
  have "buffer_image_size (new_region pid w h d) = w * h * d"
    by (simp add: buffer_image_size_def new_region_def)
  moreover have "length (metadata (new_region pid w h d)) = BUFFER_COUNT"
    by (simp add: new_region_def)
  ultimately show ?thesis
    using length_new_region_images [OF assms, of pid] p fit
    by (simp add: wf_buffer_def BUFFER_COUNT_def)
qed

lemma slot_offset:
  fixes n :: "64 word"
  assumes "BUFFER_COUNT * unat n < 2 ^ 64" and "i < BUFFER_COUNT"
  shows "unat (n * of_nat i) = i * unat n"
proof -
  have i: "unat (of_nat i :: 64 word) = i"
    using assms(2) by (simp add: unat_of_nat BUFFER_COUNT_def)
  have "i * unat n \<le> BUFFER_COUNT * unat n"
    using assms(2) by (simp add: mult_le_mono1)
  from this assms(1) have "i * unat n < 2 ^ 64" by (rule le_less_trans)
  then have "unat n * unat (of_nat i :: 64 word) < 2 ^ 64"
    using i by (simp add: mult.commute)
  then show ?thesis using i by (simp add: unat_mult_small mult.commute)
qed

lemma copy_same:
  "off + n \<le> length xs \<Longrightarrow> n \<le> length ys \<Longrightarrow>
   take n (drop off (take off xs @ take n ys @ drop (off + n) xs)) = take n ys"
  by simp

lemma copy_before:
  assumes "off' + n \<le> off" "off \<le> length xs"
  shows "take n (drop off' (take off xs @ zs)) = take n (drop off' xs)"
proof -
  have "take n (drop off' (take off xs @ zs)) = take n (drop off' (take off xs))"
    using assms by simp
  also have "\<dots> = take n (take (off - off') (drop off' xs))"
    by (simp add: drop_take)
  also have "\<dots> = take n (drop off' xs)"
    using assms by (simp add: min_def)
  finally show ?thesis .
qed

lemma copy_after:
  assumes "off + n \<le> off'" "off + n \<le> length xs" "length ys = n"
  shows "drop off' (take off xs @ ys @ drop (off + n) xs) = drop off' xs"
  using assms by simp

lemma copy_other:
  assumes "off + n \<le> length xs" "n \<le> length ys" "off' + n \<le> off \<or> off + n \<le> off'"
  shows "take n (drop off' (take off xs @ take n ys @ drop (off + n) xs)) = take n (drop off' xs)"
proof -
  from assms(3) show ?thesis
  proof
    assume "off' + n \<le> off"
    then show ?thesis using assms(1) by (intro copy_before) auto
  next
    assume a: "off + n \<le> off'"
    have "length (take n ys) = n" using assms(2) by simp
    from copy_after [OF a assms(1) this] show ?thesis by simp
  qed
qed

section \<open>Publishing\<close>

lemma status_distinct [simp]:
  "SUCCESS \<noteq> FRAME_SIZE_MISMATCH" "SUCCESS \<noteq> BLOCK_NOT_ACTIVE" "SUCCESS \<noteq> NO_NEW_FRAME"
  "FRAME_SIZE_MISMATCH \<noteq> SUCCESS" "BLOCK_NOT_ACTIVE \<noteq> SUCCESS" "NO_NEW_FRAME \<noteq> SUCCESS"
  by (simp_all add: SUCCESS_def FRAME_SIZE_MISMATCH_def BLOCK_NOT_ACTIVE_def NO_NEW_FRAME_def)

lemma buffer_to_write_to_less: "buffer_to_write_to b < BUFFER_COUNT"
  by (simp add: buffer_to_write_to_def BUFFER_COUNT_def unat_mod_distrib)

lemma target_buffer_less: "target_buffer u < BUFFER_COUNT"
  by (simp add: target_buffer_def BUFFER_COUNT_def unat_mod_distrib)

lemma wrlock_Some: "pthread_rwlock_wrlock l = Some l' \<Longrightarrow> l = Unlocked \<and> l' = Write_locked"
  by (cases l) auto

text \<open>What a call of \<open>write_frame\<close> that returns \<open>SUCCESS\<close> has found and done.\<close>

lemma write_frame_SUCCESS:
  assumes "write_frame b w h d t P = Inr (SUCCESS, b')"
  shows "buffer_t.width b = w \<and> buffer_t.height b = h \<and> buffer_t.depth b = d \<and> is_alive b \<and>
         buffer_to_write_to b < length (metadata b) \<and>
         rwlock (metadata b ! buffer_to_write_to b) = Unlocked \<and>
         unat (buffer_image_size b * of_nat (buffer_to_write_to b)) + unat (buffer_image_size b)
           \<le> length (images b) \<and>
         unat (buffer_image_size b) \<le> length P \<and>
         b' = b\<lparr>frame_cnt := frame_cnt b + 1,
                metadata := (metadata b)[buffer_to_write_to b :=
                   \<lparr>frame_metadata_t.frame_uid = frame_cnt b + 1,
                    frame_metadata_t.acquisition_time = t,
                    rwlock = Unlocked\<rparr>],
                images := take (unat (buffer_image_size b * of_nat (buffer_to_write_to b))) (images b)
                          @ take (unat (buffer_image_size b)) P
                          @ drop (unat (buffer_image_size b * of_nat (buffer_to_write_to b))
                                  + unat (buffer_image_size b)) (images b)\<rparr>"
  using assms
  by (auto simp: write_frame_def memcpy_def split: if_splits option.splits dest!: wrlock_Some)

lemma write_frame_SUCCESS_geometry:
  assumes "write_frame b w h d t P = Inr (SUCCESS, b')"
  shows "buffer_t.width b' = buffer_t.width b" "buffer_t.height b' = buffer_t.height b"
    "buffer_t.depth b' = buffer_t.depth b" "is_alive b' = is_alive b" "owner b' = owner b"
    "buffer_image_size b' = buffer_image_size b"
    "length (metadata b') = length (metadata b)" "length (images b') = length (images b)"
    "frame_cnt b' = frame_cnt b + 1"
proof -
  note w = write_frame_SUCCESS [OF assms]
  from w show "buffer_t.width b' = buffer_t.width b" "buffer_t.height b' = buffer_t.height b"
    "buffer_t.depth b' = buffer_t.depth b" "is_alive b' = is_alive b" "owner b' = owner b"
    "length (metadata b') = length (metadata b)" "frame_cnt b' = frame_cnt b + 1"
    by simp_all
  then show "buffer_image_size b' = buffer_image_size b"
    by (simp add: buffer_image_size_def)
  from w show "length (images b') = length (images b)"
    by simp
qed

lemma write_frame_SUCCESS_slot:
  assumes "write_frame b w h d t P = Inr (SUCCESS, b')"
  shows "frame_metadata_t.frame_uid (metadata b' ! buffer_to_write_to b) = frame_cnt b + 1"
    "frame_metadata_t.acquisition_time (metadata b' ! buffer_to_write_to b) = t"
    "rwlock (metadata b' ! buffer_to_write_to b) = Unlocked"
    "slot_image b' (buffer_to_write_to b) = take (unat (buffer_image_size b)) P"
proof -
  note w = write_frame_SUCCESS [OF assms]
  from w show "frame_metadata_t.frame_uid (metadata b' ! buffer_to_write_to b) = frame_cnt b + 1"
    "frame_metadata_t.acquisition_time (metadata b' ! buffer_to_write_to b) = t"
    "rwlock (metadata b' ! buffer_to_write_to b) = Unlocked"
    by simp_all
  have "images b' = take (unat (buffer_image_size b * of_nat (buffer_to_write_to b))) (images b)
                          @ take (unat (buffer_image_size b)) P
                          @ drop (unat (buffer_image_size b * of_nat (buffer_to_write_to b))
                                  + unat (buffer_image_size b)) (images b)"
    using w by simp
  moreover have "buffer_image_size b' = buffer_image_size b"
    using assms by (rule write_frame_SUCCESS_geometry)
  ultimately show "slot_image b' (buffer_to_write_to b) = take (unat (buffer_image_size b)) P"
    using w by (simp only: slot_image_def copy_same)
qed

lemma publishes_frame_cnt:
  "publishes b ps = Some b' \<Longrightarrow> frame_cnt b' = frame_cnt b + of_nat (length ps)"
proof (induction ps arbitrary: b)
  case Nil
  then show ?case by simp
next
  case (Cons tp ps)
  from Cons.prems obtain b1 where
    w: "write_frame b (buffer_t.width b) (buffer_t.height b) (buffer_t.depth b) (fst tp) (snd tp)
          = Inr (SUCCESS, b1)" and r: "publishes b1 ps = Some b'"
    by (auto split: sum.splits if_splits)
  from Cons.IH [OF r] write_frame_SUCCESS_geometry(9) [OF w] show ?case by simp
qed

lemma unat_of_nat64: "n < 2 ^ 64 \<Longrightarrow> unat (of_nat n :: 64 word) = n"
  by (simp add: unat_of_nat)

lemma unat_Suc64:
  fixes c :: "64 word"
  shows "unat c + 1 < 2 ^ 64 \<Longrightarrow> unat (c + 1) = unat c + 1"
  using unat_add_lem [of c 1] by simp

text \<open>
  C1. Let \<open>b\<close> be a freshly created region after the successful publishes \<open>ps\<close>, and let a
  further call of \<open>write_frame\<close> succeed on it. The counter of \<open>b\<close> is the number of
  publishes made, as a 64-bit value; the call adds one to the counter, stores the new
  counter as the \<open>frame_uid\<close> and the acquisition time in the metadata of slot
  \<open>buffer_to_write_to\<close>, and leaves the payload (the first \<open>width * height * depth\<close> bytes
  of the data) in that slot. As long as the 64-bit counter has not wrapped, the counter
  is the number of publishes as a number, and the slot is that number plus one, modulo
  \<open>BUFFER_COUNT\<close>.
\<close>

theorem write_frame_advances_ring:
  assumes "publishes (new_region pid w h d) ps = Some b"
      and "write_frame b w' h' d' t P = Inr (SUCCESS, b')"
  shows "frame_cnt b = of_nat (length ps) \<and>
         frame_cnt b' = frame_cnt b + 1 \<and>
         frame_metadata_t.frame_uid (metadata b' ! buffer_to_write_to b) = frame_cnt b' \<and>
         frame_metadata_t.acquisition_time (metadata b' ! buffer_to_write_to b) = t \<and>
         slot_image b' (buffer_to_write_to b) = take (unat (buffer_image_size b)) P \<and>
         (length ps + 1 < 2 ^ 64 \<longrightarrow>
            unat (frame_cnt b) = length ps \<and> unat (frame_cnt b') = length ps + 1 \<and>
            buffer_to_write_to b = (length ps + 1) mod BUFFER_COUNT)"
proof -
  have c: "frame_cnt b = of_nat (length ps)"
    using publishes_frame_cnt [OF assms(1)] by (simp add: new_region_def)
  have c': "frame_cnt b' = frame_cnt b + 1"
    using assms(2) by (rule write_frame_SUCCESS_geometry)
  have n: "unat (frame_cnt b) = length ps \<and> unat (frame_cnt b') = length ps + 1 \<and>
      buffer_to_write_to b = (length ps + 1) mod BUFFER_COUNT" if "length ps + 1 < 2 ^ 64"
  proof -
    from that have u: "unat (frame_cnt b) = length ps" by (simp add: c unat_of_nat64)
    with that have u': "unat (frame_cnt b + 1) = length ps + 1" by (simp add: unat_Suc64)
    then show ?thesis
      using u c' by (simp add: buffer_to_write_to_def BUFFER_COUNT_def unat_mod_distrib)
  qed
  show ?thesis
    using c c' n write_frame_SUCCESS_slot [OF assms(2)] by simp
qed

theorem write_frame_advances_ring_witness:
  "publishes (new_region 100 1 1 1) [(7, [1]), (8, [2])] = Some region_2 \<and>
   write_frame region_2 1 1 1 9 [3] = Inr (SUCCESS, region_3) \<and>
   buffer_to_write_to region_2 = 0 \<and>
   unat (frame_cnt region_2) = 2 \<and> unat (frame_cnt region_3) = 3 \<and>
   frame_metadata_t.frame_uid (metadata region_3 ! 0) = 3 \<and>
   frame_metadata_t.acquisition_time (metadata region_3 ! 0) = 9 \<and>
   slot_image region_3 0 = [3]"
proof -
  have h1: "publishes (new_region 100 1 1 1) [(7, [1]), (8, [2])] = Some region_2"
    by code_simp
  have h2: "write_frame region_2 1 1 1 9 [3] = Inr (SUCCESS, region_3)"
    by code_simp
  have s: "buffer_image_size region_2 = 1"
    by (simp add: buffer_image_size_def region_2_def)
  note t = write_frame_advances_ring [OF h1 h2]
  have i: "buffer_to_write_to region_2 = 0"
    using t by (simp add: BUFFER_COUNT_def)
  have c: "frame_cnt region_2 = 2" "unat (frame_cnt region_2) = 2"
    "unat (frame_cnt region_3) = 3"
    using t by simp_all
  have "frame_cnt region_3 = 3"
    using t c(1) by simp
  then have m: "frame_metadata_t.frame_uid (metadata region_3 ! 0) = 3"
    "frame_metadata_t.acquisition_time (metadata region_3 ! 0) = 9"
    "slot_image region_3 0 = [3]"
    using t s unfolding i by simp_all
  show ?thesis
    by (intro conjI h1 h2 i c m)
qed

text \<open>
  C6. \<open>write_frame\<close> compares the geometry first: when it differs from the region's
  the call returns \<open>FRAME_SIZE_MISMATCH\<close>, whether the region is alive or not. When the
  geometry matches and the region is not alive it returns \<open>BLOCK_NOT_ACTIVE\<close>. In both
  cases the region is returned as it was.
\<close>

theorem write_frame_preconditions:
  "(buffer_t.width b \<noteq> w \<or> buffer_t.height b \<noteq> h \<or> buffer_t.depth b \<noteq> d \<longrightarrow>
      write_frame b w h d t P = Inr (FRAME_SIZE_MISMATCH, b)) \<and>
   (buffer_t.width b = w \<and> buffer_t.height b = h \<and> buffer_t.depth b = d \<and> \<not> is_alive b \<longrightarrow>
      write_frame b w h d t P = Inr (BLOCK_NOT_ACTIVE, b))"
  by (simp add: write_frame_def)

theorem write_frame_preconditions_witness:
  "write_frame (region_3\<lparr>is_alive := False\<rparr>) 1 1 2 10 [4, 4] =
     Inr (FRAME_SIZE_MISMATCH, region_3\<lparr>is_alive := False\<rparr>) \<and>
   write_frame (region_3\<lparr>is_alive := False\<rparr>) 1 1 1 10 [4] =
     Inr (BLOCK_NOT_ACTIVE, region_3\<lparr>is_alive := False\<rparr>)"
  using write_frame_preconditions [of "region_3\<lparr>is_alive := False\<rparr>" 1 1 2 10 "[4, 4]"]
    write_frame_preconditions [of "region_3\<lparr>is_alive := False\<rparr>" 1 1 1 10 "[4]"]
  by (simp add: region_3_def)

section \<open>Consuming\<close>

lemma length_realloc [simp]: "length (realloc p n) = n"
  by (simp add: realloc_def)

lemma wf_buffer_slot:
  assumes "wf_buffer b" "i < BUFFER_COUNT"
  shows "i < length (metadata b)"
    "unat (buffer_image_size b * of_nat i) = i * unat (buffer_image_size b)"
    "i * unat (buffer_image_size b) + unat (buffer_image_size b) \<le> length (images b)"
proof -
  from assms show "i < length (metadata b)" by (simp add: wf_buffer_def)
  from assms(1) have "BUFFER_COUNT * unat (buffer_image_size b) < 2 ^ 64"
    by (simp add: wf_buffer_def)
  then show "unat (buffer_image_size b * of_nat i) = i * unat (buffer_image_size b)"
    using assms(2) by (rule slot_offset)
  have "Suc i * unat (buffer_image_size b) \<le> BUFFER_COUNT * unat (buffer_image_size b)"
    using assms(2) by (intro mult_le_mono1) simp
  then show "i * unat (buffer_image_size b) + unat (buffer_image_size b) \<le> length (images b)"
    using assms(1) by (simp add: wf_buffer_def)
qed

lemma read_locked_cases:
  "read_locked slot b wakes f = r \<Longrightarrow>
   r = Inl OUT_OF_BOUNDS \<and> (BUFFER_COUNT \<le> slot \<or> (\<exists>b'\<in>set (b # wakes). length (metadata b') \<le> slot)) \<or>
   r = Inl WAITS_FOREVER \<or> r = Inr (BLOCK_NOT_ACTIVE, f) \<or>
   (\<exists>b'\<in>set (b # wakes). r = copy_out b' slot f)"
proof (induction wakes arbitrary: b)
  case Nil
  then show ?case by (auto split: if_splits)
next
  case (Cons b1 wakes)
  show ?case
  proof (cases "BUFFER_COUNT \<le> slot \<or> length (metadata b) \<le> slot")
    case True
    with Cons.prems show ?thesis by auto
  next
    case oob: False
    show ?thesis
    proof (cases "fst (pthread_rwlock_tryrdlock (rwlock (metadata b ! slot))) \<noteq> 0")
      case False
      with oob Cons.prems show ?thesis by auto
    next
      case busy: True
      show ?thesis
      proof (cases "is_alive b1")
        case False
        with oob busy Cons.prems show ?thesis by auto
      next
        case True
        with oob busy Cons.prems have "read_locked slot b1 wakes f = r" by auto
        from Cons.IH [OF this] show ?thesis by auto
      qed
    qed
  qed
qed

lemma resized_simps [simp]:
  "frame_t.frame_uid (resized b f) = frame_t.frame_uid f"
  "frame_t.acquisition_time (resized b f) = frame_t.acquisition_time f"
  "frame_image_size (resized b f) = buffer_image_size b"
  "length (data (resized b f)) = unat (buffer_image_size b)"
  by (simp_all add: resized_def frame_image_size_def buffer_image_size_def)

lemma copy_out_resized:
  "copy_out b' slot (resized b f) =
     (if unat (buffer_image_size b * of_nat slot) + unat (buffer_image_size b) \<le> length (images b')
      then Inr (SUCCESS,
             (resized b f)\<lparr>frame_t.frame_uid := frame_metadata_t.frame_uid (metadata b' ! slot),
                frame_t.acquisition_time := frame_metadata_t.acquisition_time (metadata b' ! slot),
                data := take (unat (buffer_image_size b))
                          (drop (unat (buffer_image_size b * of_nat slot)) (images b'))\<rparr>)
      else Inl OUT_OF_BOUNDS)"
  by (simp add: copy_out_def memcpy_def)

lemma read_frame_cases:
  assumes "read_frame b f blk wakes = r"
  shows "r = Inr (BLOCK_NOT_ACTIVE, resized b f) \<or>
     r = Inr (NO_NEW_FRAME, resized b f) \<and> \<not> blk \<and> is_alive b \<and> frame_t.frame_uid f = frame_cnt b \<or>
     r = Inl WAITS_FOREVER \<or>
     r = Inl OUT_OF_BOUNDS \<and>
       (\<exists>b'\<in>set (b # wakes). length (metadata b') \<le>
          target_buffer (target_frame_uid (frame_cnt b) (frame_t.frame_uid f))) \<or>
     is_alive b \<and> (blk \<or> frame_t.frame_uid f \<noteq> frame_cnt b) \<and>
     (\<exists>b'\<in>set (b # wakes).
        r = copy_out b' (target_buffer (target_frame_uid (frame_cnt b) (frame_t.frame_uid f)))
              (resized b f))"
proof -
  let ?s = "target_buffer (target_frame_uid (frame_cnt b) (frame_t.frame_uid f))"
  have rl: "r = Inr (BLOCK_NOT_ACTIVE, resized b f) \<or> r = Inl WAITS_FOREVER \<or>
     r = Inl OUT_OF_BOUNDS \<and> (\<exists>b'\<in>set (b # wakes). length (metadata b') \<le> ?s) \<or>
     (\<exists>b'\<in>set (b # wakes). r = copy_out b' ?s (resized b f))"
    if "read_locked ?s b1 ws (resized b f) = r" "set (b1 # ws) \<subseteq> set (b # wakes)" for b1 ws
  proof -
    from read_locked_cases [OF that(1)] target_buffer_less [of "target_frame_uid (frame_cnt b) (frame_t.frame_uid f)"]
    have "r = Inl OUT_OF_BOUNDS \<and> (\<exists>b'\<in>set (b1 # ws). length (metadata b') \<le> ?s) \<or>
      r = Inl WAITS_FOREVER \<or> r = Inr (BLOCK_NOT_ACTIVE, resized b f) \<or>
      (\<exists>b'\<in>set (b1 # ws). r = copy_out b' ?s (resized b f))"
      by (simp only: not_le [symmetric]) blast
    with that(2) show ?thesis by blast
  qed
  show ?thesis
  proof (cases "is_alive b")
    case False
    with assms show ?thesis by (simp add: read_frame_def resized_def)
  next
    case alive: True
    show ?thesis
    proof (cases "frame_t.frame_uid f = frame_cnt b")
      case False
      with alive assms have "read_locked ?s b wakes (resized b f) = r"
        by (simp add: read_frame_def resized_def del: read_locked.simps)
      from rl [OF this] alive False show ?thesis by auto
    next
      case caught_up: True
      show ?thesis
      proof (cases blk)
        case False
        with alive caught_up assms show ?thesis by (simp add: read_frame_def resized_def)
      next
        case True
        show ?thesis
        proof (cases wakes)
          case Nil
          with alive caught_up True assms show ?thesis by (simp add: read_frame_def resized_def)
        next
          case (Cons b1 ws)
          show ?thesis
          proof (cases "is_alive b1")
            case False
            with Cons alive caught_up True assms show ?thesis
              by (simp add: read_frame_def resized_def del: read_locked.simps)
          next
            case b1: True
            with Cons alive caught_up True assms
            have "read_locked ?s b1 ws (resized b f) = r"
              by (simp add: read_frame_def resized_def del: read_locked.simps)
            from rl [OF this] Cons alive True show ?thesis by auto
          qed
        qed
      qed
    qed
  qed
qed

lemma read_frame_SUCCESS:
  assumes "read_frame b f blk wakes = Inr (SUCCESS, f')"
  shows "\<exists>b'\<in>set (b # wakes).
     unat (buffer_image_size b *
           of_nat (target_buffer (target_frame_uid (frame_cnt b) (frame_t.frame_uid f))))
       + unat (buffer_image_size b) \<le> length (images b') \<and>
     f' = (resized b f)
       \<lparr>frame_t.frame_uid := frame_metadata_t.frame_uid
          (metadata b' ! target_buffer (target_frame_uid (frame_cnt b) (frame_t.frame_uid f))),
        frame_t.acquisition_time := frame_metadata_t.acquisition_time
          (metadata b' ! target_buffer (target_frame_uid (frame_cnt b) (frame_t.frame_uid f))),
        data := take (unat (buffer_image_size b))
          (drop (unat (buffer_image_size b *
             of_nat (target_buffer (target_frame_uid (frame_cnt b) (frame_t.frame_uid f)))))
            (images b'))\<rparr>"
proof -
  from read_frame_cases [OF assms] obtain b' where
    b': "b' \<in> set (b # wakes)" and
    c: "Inr (SUCCESS, f') = copy_out b'
          (target_buffer (target_frame_uid (frame_cnt b) (frame_t.frame_uid f))) (resized b f)"
    by auto
  from c [symmetric] have "unat (buffer_image_size b *
           of_nat (target_buffer (target_frame_uid (frame_cnt b) (frame_t.frame_uid f))))
       + unat (buffer_image_size b) \<le> length (images b') \<and>
     f' = (resized b f)
       \<lparr>frame_t.frame_uid := frame_metadata_t.frame_uid
          (metadata b' ! target_buffer (target_frame_uid (frame_cnt b) (frame_t.frame_uid f))),
        frame_t.acquisition_time := frame_metadata_t.acquisition_time
          (metadata b' ! target_buffer (target_frame_uid (frame_cnt b) (frame_t.frame_uid f))),
        data := take (unat (buffer_image_size b))
          (drop (unat (buffer_image_size b *
             of_nat (target_buffer (target_frame_uid (frame_cnt b) (frame_t.frame_uid f)))))
            (images b'))\<rparr>"
    by (simp add: copy_out_resized split: if_splits)
  with b' show ?thesis by blast
qed

lemma target_frame_uid_spec:
  "target_frame_uid newest last_uid = target_uid_spec (of_nat BUFFER_COUNT) last_uid newest"
  by (auto simp: target_frame_uid_def target_uid_spec_def max_macro_def max_def)

lemma unat_target_frame_uid:
  assumes "unat last_uid + 1 < 2 ^ 64"
  shows "unat (target_frame_uid newest last_uid) =
     (if unat newest < BUFFER_COUNT then unat last_uid + 1
      else max (unat last_uid + 1) (unat newest - BUFFER_COUNT + 1))"
proof (cases "newest < 3")
  case True
  then have "unat newest < 3" by (simp add: word_less_nat_alt)
  with True assms show ?thesis
    by (simp add: target_frame_uid_def BUFFER_COUNT_def unat_Suc64)
next
  case False
  then have ge: "3 \<le> newest" by simp
  then have n: "3 \<le> unat newest" by (simp add: word_le_nat_alt)
  have "2 \<le> newest" using n by (simp add: word_le_nat_alt)
  then have a: "unat (newest - 2) = unat newest - 2" by (simp add: unat_sub)
  have l: "unat (last_uid + 1) = unat last_uid + 1" using assms by (rule unat_Suc64)
  show ?thesis
    using False n a l
    by (simp add: target_frame_uid_def BUFFER_COUNT_def max_macro_def word_less_nat_alt max_def)
      arith
qed

text \<open>
  C2. The uid \<open>read_frame\<close> targets is the one the specification gives for the consumer's
  high-water uid and the observed counter: \<open>last + 1\<close> while the counter is below
  \<open>BUFFER_COUNT\<close>, and the larger of \<open>last + 1\<close> and \<open>newest - BUFFER_COUNT + 1\<close> otherwise,
  in 64-bit arithmetic; as numbers too, unless \<open>last + 1\<close> overflows. The slot is the
  target modulo \<open>BUFFER_COUNT\<close>, and a call that returns \<open>SUCCESS\<close> returns the uid, the
  acquisition time and the bytes of that slot, as the region holds them when the call
  takes the lock (at entry, or at one of the returns of \<open>pthread_cond_wait\<close>).
\<close>

theorem read_frame_target:
  "target_frame_uid newest last_uid = target_uid_spec (of_nat BUFFER_COUNT) last_uid newest \<and>
   target_buffer (target_frame_uid newest last_uid) =
     unat (target_uid_spec (of_nat BUFFER_COUNT) last_uid newest) mod BUFFER_COUNT \<and>
   (unat last_uid + 1 < 2 ^ 64 \<longrightarrow>
      unat (target_frame_uid newest last_uid) =
        (if unat newest < BUFFER_COUNT then unat last_uid + 1
         else max (unat last_uid + 1) (unat newest - BUFFER_COUNT + 1))) \<and>
   (read_frame b f blk wakes = Inr (SUCCESS, f') \<longrightarrow>
      (\<exists>b'\<in>set (b # wakes).
         frame_t.frame_uid f' = frame_metadata_t.frame_uid (metadata b' !
           (unat (target_uid_spec (of_nat BUFFER_COUNT) (frame_t.frame_uid f) (frame_cnt b))
              mod BUFFER_COUNT)) \<and>
         frame_t.acquisition_time f' = frame_metadata_t.acquisition_time (metadata b' !
           (unat (target_uid_spec (of_nat BUFFER_COUNT) (frame_t.frame_uid f) (frame_cnt b))
              mod BUFFER_COUNT)) \<and>
         data f' = take (unat (buffer_image_size b))
           (drop (unat (buffer_image_size b * of_nat
              (unat (target_uid_spec (of_nat BUFFER_COUNT) (frame_t.frame_uid f) (frame_cnt b))
                 mod BUFFER_COUNT)))
            (images b'))))"
proof -
  have tb: "target_buffer (target_frame_uid n l) =
      unat (target_uid_spec (of_nat BUFFER_COUNT) l n) mod BUFFER_COUNT" for n l
    by (simp add: target_buffer_def target_frame_uid_spec unat_mod_distrib BUFFER_COUNT_def)
  have "\<exists>b'\<in>set (b # wakes).
         frame_t.frame_uid f' = frame_metadata_t.frame_uid (metadata b' !
           (unat (target_uid_spec (of_nat BUFFER_COUNT) (frame_t.frame_uid f) (frame_cnt b))
              mod BUFFER_COUNT)) \<and>
         frame_t.acquisition_time f' = frame_metadata_t.acquisition_time (metadata b' !
           (unat (target_uid_spec (of_nat BUFFER_COUNT) (frame_t.frame_uid f) (frame_cnt b))
              mod BUFFER_COUNT)) \<and>
         data f' = take (unat (buffer_image_size b))
           (drop (unat (buffer_image_size b * of_nat
              (unat (target_uid_spec (of_nat BUFFER_COUNT) (frame_t.frame_uid f) (frame_cnt b))
                 mod BUFFER_COUNT)))
            (images b'))" if "read_frame b f blk wakes = Inr (SUCCESS, f')"
  proof -
    from read_frame_SUCCESS [OF that] obtain b' where "b' \<in> set (b # wakes)"
      and "f' = (resized b f)
       \<lparr>frame_t.frame_uid := frame_metadata_t.frame_uid
          (metadata b' ! target_buffer (target_frame_uid (frame_cnt b) (frame_t.frame_uid f))),
        frame_t.acquisition_time := frame_metadata_t.acquisition_time
          (metadata b' ! target_buffer (target_frame_uid (frame_cnt b) (frame_t.frame_uid f))),
        data := take (unat (buffer_image_size b))
          (drop (unat (buffer_image_size b *
             of_nat (target_buffer (target_frame_uid (frame_cnt b) (frame_t.frame_uid f)))))
            (images b'))\<rparr>"
      by blast
    then show ?thesis unfolding tb by (intro bexI [of _ b']) simp_all
  qed
  then show ?thesis
    using target_frame_uid_spec [of newest last_uid] tb [of newest last_uid]
      unat_target_frame_uid [of last_uid newest]
    by blast
qed

theorem read_frame_target_witness:
  "unat (0 :: uint64_t) + 1 < 2 ^ 64 \<and>
   target_frame_uid 3 0 = 1 \<and> unat (target_frame_uid 3 0) = 1 \<and>
   target_buffer (target_frame_uid 3 0) = 1 \<and>
   read_frame region_3 (create_frame zero_frame) False [] = Inr (SUCCESS, frame_1) \<and>
   frame_t.frame_uid frame_1 = frame_metadata_t.frame_uid (metadata region_3 ! 1) \<and>
   data frame_1 = take 1 (drop 1 (images region_3))"
proof -
  have h: "read_frame region_3 (create_frame zero_frame) False [] = Inr (SUCCESS, frame_1)"
    by code_simp
  have u: "unat (0 :: uint64_t) + 1 < 2 ^ 64"
    by simp
  have s: "target_uid_spec (of_nat BUFFER_COUNT) 0 3 = 1"
    by (simp add: target_uid_spec_def BUFFER_COUNT_def)
  note t = read_frame_target [of 3 0 region_3 "create_frame zero_frame" False "[]" frame_1]
  note t1 = t [THEN conjunct1]
  note t2 = t [THEN conjunct2, THEN conjunct1]
  note t3 = t [THEN conjunct2, THEN conjunct2, THEN conjunct1, THEN mp, OF u]
  note t4 = t [THEN conjunct2, THEN conjunct2, THEN conjunct2, THEN mp, OF h]
  have c: "frame_cnt region_3 = 3" "frame_t.frame_uid (create_frame zero_frame) = 0"
    "buffer_image_size region_3 = 1"
    by (simp_all add: region_3_def create_frame_def buffer_image_size_def)
  have a1: "target_frame_uid 3 0 = 1"
    using t1 by (simp only: s)
  have a2: "unat (target_frame_uid 3 0) = 1"
    using t3 by (simp add: BUFFER_COUNT_def)
  have a3: "target_buffer (target_frame_uid 3 0) = 1"
    using t2 by (simp only: s) (simp add: BUFFER_COUNT_def)
  have b: "frame_t.frame_uid frame_1 = frame_metadata_t.frame_uid (metadata region_3 ! 1) \<and>
    data frame_1 = take 1 (drop 1 (images region_3))"
    using t4 unfolding c s by (simp add: BUFFER_COUNT_def)
  show ?thesis
    using b by (intro conjI u a1 a2 a3 h) simp_all
qed

text \<open>
  What holds of a non-blocking call by a consumer that is caught up on an alive region:
  it returns \<open>NO_NEW_FRAME\<close>, and the frame keeps its uid and acquisition time, but its
  data buffer has been reallocated and its geometry overwritten.
\<close>

lemma read_frame_caught_up:
  assumes "is_alive b" "frame_t.frame_uid f = frame_cnt b"
  shows "read_frame b f False wakes = Inr (NO_NEW_FRAME, resized b f)"
  using assms by (simp add: read_frame_def resized_def)

text \<open>
  C5. \<open>buffer.h\<close> documents that a non-blocking call that finds no new frame leaves the
  frame unchanged. It does not: on an alive region of one-byte images, a caught-up frame
  fresh from \<open>create_frame\<close> comes back with \<open>NO_NEW_FRAME\<close> and with its uid, but
  with the region's geometry in place of its own and with one byte of data in place of
  its eight.
\<close>

theorem read_frame_no_new_frame_changes_frame:
  "create_frame zero_frame =
     \<lparr>frame_t.width = 0, frame_t.height = 0, frame_t.depth = 0,
      frame_t.acquisition_time = 0, frame_t.frame_uid = 0,
      data = [0, 0, 0, 0, 0, 0, 0, 0]\<rparr> \<and>
   is_alive (new_region 100 1 1 1) \<and>
   frame_cnt (new_region 100 1 1 1) = frame_t.frame_uid (create_frame zero_frame) \<and>
   read_frame (new_region 100 1 1 1) (create_frame zero_frame) False [] =
     Inr (NO_NEW_FRAME,
       \<lparr>frame_t.width = 1, frame_t.height = 1, frame_t.depth = 1,
        frame_t.acquisition_time = 0, frame_t.frame_uid = 0, data = [0]\<rparr>)"
  by code_simp

section \<open>Bounds\<close>

lemma write_frame_in_bounds:
  assumes "wf_buffer b" "unat (buffer_image_size b) \<le> length P"
  shows "write_frame b w h d t P \<noteq> Inl OUT_OF_BOUNDS"
proof -
  note s = wf_buffer_slot [OF assms(1) buffer_to_write_to_less [of b]]
  have "memcpy (images b) (unat (buffer_image_size b * of_nat (buffer_to_write_to b))) P 0
          (unat (buffer_image_size b)) \<noteq> None"
    using s(2,3) assms(2) by (simp add: memcpy_def)
  then show ?thesis
    using s(1) buffer_to_write_to_less [of b]
    by (auto simp: write_frame_def split: option.splits)
qed

lemma read_frame_in_bounds:
  assumes "wf_buffer b" "\<forall>b'\<in>set wakes. same_region b b'"
  shows "read_frame b f blk wakes \<noteq> Inl OUT_OF_BOUNDS"
proof
  let ?s = "target_buffer (target_frame_uid (frame_cnt b) (frame_t.frame_uid f))"
  assume r: "read_frame b f blk wakes = Inl OUT_OF_BOUNDS"
  note s = wf_buffer_slot [OF assms(1) target_buffer_less [of "target_frame_uid (frame_cnt b) (frame_t.frame_uid f)"]]
  have same: "length (metadata b') = length (metadata b) \<and> length (images b') = length (images b)"
    if "b' \<in> set (b # wakes)" for b'
    using that assms(2) by (auto simp: same_region_def)
  from read_frame_cases [OF r] consider
    b' where "b' \<in> set (b # wakes)" "length (metadata b') \<le> ?s"
    | b' where "b' \<in> set (b # wakes)" "Inl OUT_OF_BOUNDS = copy_out b' ?s (resized b f)"
    by auto
  then show False
  proof cases
    case 1
    with same [OF 1(1)] s(1) show False by simp
  next
    case 2
    with same [OF 2(1)] s(2,3) show False by (simp add: copy_out_resized)
  qed
qed

text \<open>
  C9. In a well-formed region the index \<open>write_frame\<close> computes and the index
  \<open>read_frame\<close> computes are below \<open>BUFFER_COUNT\<close>; for every such index the metadata
  entry exists, the offset \<open>image_size * index\<close> does not wrap, and the \<open>image_size\<close> bytes
  from it lie inside the images. So \<open>write_frame\<close>, given at least \<open>image_size\<close> bytes
  of data, and \<open>read_frame\<close>, whatever states of the region it wakes up to, make no
  access out of bounds.
\<close>

theorem slot_accesses_in_bounds:
  assumes "wf_buffer b"
  shows "buffer_to_write_to b < BUFFER_COUNT \<and>
     target_buffer (target_frame_uid (frame_cnt b) (frame_t.frame_uid f)) < BUFFER_COUNT \<and>
     (\<forall>i<BUFFER_COUNT. i < length (metadata b) \<and>
        unat (buffer_image_size b * of_nat i) = i * unat (buffer_image_size b) \<and>
        i * unat (buffer_image_size b) + unat (buffer_image_size b) \<le> length (images b)) \<and>
     (unat (buffer_image_size b) \<le> length P \<longrightarrow> write_frame b w h d t P \<noteq> Inl OUT_OF_BOUNDS) \<and>
     ((\<forall>b'\<in>set wakes. same_region b b') \<longrightarrow> read_frame b f blk wakes \<noteq> Inl OUT_OF_BOUNDS)"
  using assms buffer_to_write_to_less target_buffer_less wf_buffer_slot [OF assms]
    write_frame_in_bounds [OF assms] read_frame_in_bounds [OF assms]
  by blast

theorem slot_accesses_in_bounds_witness:
  "wf_buffer region_3 \<and> buffer_to_write_to region_3 < BUFFER_COUNT \<and>
   unat (buffer_image_size region_3 * of_nat 2) = 2 \<and> 2 + 1 \<le> length (images region_3) \<and>
   unat (buffer_image_size region_3) \<le> length [4 :: image] \<and>
   write_frame region_3 1 1 1 10 [4] \<noteq> Inl OUT_OF_BOUNDS \<and>
   same_region region_3 region_3 \<and>
   read_frame region_3 frame_3 True [region_3] \<noteq> Inl OUT_OF_BOUNDS"
proof -
  have w: "wf_buffer region_3"
    by (simp add: wf_buffer_def region_3_def BUFFER_COUNT_def buffer_image_size_def)
  have s: "\<forall>b'\<in>set [region_3]. same_region region_3 b'"
    by (simp add: same_region_def)
  have n: "unat (buffer_image_size region_3) = 1"
    by (simp add: region_3_def buffer_image_size_def)
  note t = slot_accesses_in_bounds [OF w, of frame_3 "[4]" 1 1 1 10 "[region_3]" True]
  note t1 = t [THEN conjunct1]
  note t3 = t [THEN conjunct2, THEN conjunct2, THEN conjunct1, rule_format, of 2]
  note t4 = t [THEN conjunct2, THEN conjunct2, THEN conjunct2, THEN conjunct1, THEN mp]
  note t5 = t [THEN conjunct2, THEN conjunct2, THEN conjunct2, THEN conjunct2, THEN mp, OF s]
  have l: "unat (buffer_image_size region_3) \<le> length [4 :: image]"
    using n by simp
  have i: "unat (buffer_image_size region_3 * of_nat 2) = 2 \<and> 2 + 1 \<le> length (images region_3)"
    using t3 n by (simp add: BUFFER_COUNT_def)
  have s': "same_region region_3 region_3"
    by (simp add: same_region_def)
  show ?thesis
    using i by (intro conjI w t1 l t4 [OF l] s' t5) simp_all
qed

section \<open>Lifecycle\<close>

text \<open>
  C4. \<open>buffer.h\<close> documents that \<open>destroy_block\<close> does nothing when the caller is not
  the owner and the region is not poisoned. It does not decline: process 200 holds a
  handle on the region \<open>cam\<close> that process 100 owns; process 100 exists and answers
  the null signal of process 200, so the region is not poisoned. The call by process 200 prints the diagnostic and goes on: the region is
  marked not alive, the backing file is gone under its name and under the archive name,
  and the caller's mapping is released.
\<close>

theorem destroy_block_unauthorized_destroys:
  "fst (open_block (snd (create_block booted 100 ''cam'' 1 1 1)) ''cam'') = Some cam_reader \<and>
   region_at cam_system (buffer cam_reader) = Some (new_region 100 1 1 1) \<and>
   map_sum id fst (block_is_poisoned cam_system 200 (Some cam_reader)) = Inr False \<and>
   (case destroy_block cam_system 200 (Some cam_reader) of
      Inl f \<Rightarrow> False
    | Inr sys' \<Rightarrow>
        stderr sys' = [Cannot_free_unpoisoned] \<and>
        map_option is_alive (regions sys' 1) = Some False \<and>
        files sys' ''/dev/shm/buffer-cam'' = None \<and>
        files sys' (''/dev/shm/buffer-cam'' @ archived) = None \<and>
        mappings sys' (buffer cam_reader) = None)"
  by code_simp

text \<open>
  What the two predicates return for a handle whose mapping is in place:
  \<open>block_is_alive\<close> the region's \<open>is_alive\<close> flag, \<open>block_is_poisoned\<close> whether the flag is
  set and the null signal to the owner fails. The signal fails when the owner does not
  exist or when the caller may not signal it; for a caller that may signal whatever
  process exists under the owner's pid (the superuser, or a process of that user), the
  region is reported poisoned exactly when it is alive and the owner does not exist.
\<close>

lemma block_is_alive_flag:
  assumes "region_at sys (buffer blk) = Some b"
  shows "block_is_alive sys (Some blk) = Inr (is_alive b)"
  using assms by (simp add: block_is_alive_def)

lemma block_is_poisoned_result:
  assumes "region_at sys (buffer blk) = Some b"
  shows "map_sum id fst (block_is_poisoned sys pid (Some blk)) =
     Inr (is_alive b \<and> kill sys pid (owner b) 0 \<noteq> 0)"
  using assms by (auto simp: block_is_poisoned_def Let_def)

lemma kill_fails:
  "kill sys caller pid 0 \<noteq> 0 \<longleftrightarrow>
     processes sys pid = None \<or>
     (\<forall>user. processes sys caller = Some user \<longrightarrow> user \<noteq> 0 \<and> processes sys pid \<noteq> Some user)"
  by (auto simp: kill_def split: option.splits)

lemma block_is_poisoned_permitted:
  assumes "region_at sys (buffer blk) = Some b"
    and "processes sys pid = Some user"
    and "user = 0 \<or> processes sys (owner b) = None \<or> processes sys (owner b) = Some user"
  shows "map_sum id fst (block_is_poisoned sys pid (Some blk)) =
     Inr (is_alive b \<and> processes sys (owner b) = None)"
  using assms by (auto simp: block_is_poisoned_def Let_def kill_def split: option.splits)

text \<open>
  C8. \<open>block_is_alive\<close> returns the region's \<open>is_alive\<close> flag. \<open>block_is_poisoned\<close> is to
  return true exactly when the flag is set and the owner process no longer exists
  (\<open>buffer.c\<close>, line 299: the line checks if the owner is still alive). It returns true
  for every failure of \<open>kill\<close>, and \<open>kill\<close> fails for an owner that exists too. Process 200
  has opened the region \<open>cam\<close> and then changed its user; the owner, process 100, exists
  and the region is alive, but process 200 is not permitted to signal process 100: the
  null signal returns -1 and the region is reported poisoned.
\<close>

theorem block_is_poisoned_with_live_owner:
  "region_at cam_system_other_user (buffer cam_reader) = Some (new_region 100 1 1 1) \<and>
   is_alive (new_region 100 1 1 1) \<and> owner (new_region 100 1 1 1) = 100 \<and>
   processes cam_system_other_user 100 = Some 1000 \<and>
   processes cam_system_other_user 200 = Some 2000 \<and>
   kill cam_system_other_user 200 100 0 = -1 \<and>
   block_is_alive cam_system_other_user (Some cam_reader) = Inr True \<and>
   map_sum id fst (block_is_poisoned cam_system_other_user 200 (Some cam_reader)) = Inr True"
  by code_simp




section \<open>What a consumer reads\<close>

lemma records_new_region:
  assumes "geometry_fits w h d"
  shows "records [] (new_region pid w h d)"
proof -
  have "slot_ok [] (new_region pid w h d) i" if "i < BUFFER_COUNT" for i
    using that by (simp add: slot_ok_def new_region_def)
  then show ?thesis
    using wf_new_region [OF assms, of pid] by (simp add: records_def new_region_def)
qed

lemma slot_image_other:
  assumes wf: "wf_buffer b" and w: "write_frame b w h d t P = Inr (SUCCESS, b')"
    and i: "i < BUFFER_COUNT" "i \<noteq> buffer_to_write_to b"
  shows "slot_image b' i = slot_image b i"
proof -
  let ?n = "unat (buffer_image_size b)" and ?s = "buffer_to_write_to b"
  note W = write_frame_SUCCESS [OF w]
  note s = wf_buffer_slot [OF wf buffer_to_write_to_less [of b]]
  note o = wf_buffer_slot [OF wf i(1)]
  have img: "images b' = take (?s * ?n) (images b) @ take ?n P @ drop (?s * ?n + ?n) (images b)"
    using W s(2) by simp
  have "i * ?n + ?n \<le> ?s * ?n \<or> ?s * ?n + ?n \<le> i * ?n"
  proof (cases "i < ?s")
    case True
    then have "Suc i * ?n \<le> ?s * ?n" by (intro mult_le_mono1) simp
    then show ?thesis by simp
  next
    case False
    with i(2) have "Suc ?s * ?n \<le> i * ?n" by (intro mult_le_mono1) simp
    then show ?thesis by simp
  qed
  with s(3) W have "take ?n (drop (i * ?n) (images b')) = take ?n (drop (i * ?n) (images b))"
    unfolding img by (intro copy_other) simp_all
  then show ?thesis
    using o(2) write_frame_SUCCESS_geometry(6) [OF w] by (simp add: slot_image_def)
qed

lemma next_slot_unwritten:
  "n < (if i = 0 then 3 else i) \<Longrightarrow> i < (3::nat) \<Longrightarrow> i \<noteq> (n + 1) mod 3 \<Longrightarrow>
   n + 1 < (if i = 0 then 3 else i)"
  by presburger

lemma records_write_frame:
  assumes r: "records h b" and len: "length h + 1 < 2 ^ 64"
    and w: "write_frame b w' h' d' t P = Inr (SUCCESS, b')"
    and P: "length P = unat (buffer_image_size b)"
  shows "records (h @ [(t, P)]) b'"
proof -
  let ?s = "buffer_to_write_to b"
  note W = write_frame_SUCCESS [OF w]
  note G = write_frame_SUCCESS_geometry [OF w]
  note S = write_frame_SUCCESS_slot [OF w]
  from r have wf: "wf_buffer b" and cnt: "unat (frame_cnt b) = length h"
    and ok: "\<And>i. i < BUFFER_COUNT \<Longrightarrow> slot_ok h b i"
    by (simp_all add: records_def)
  have wf': "wf_buffer b'"
    using wf G by (simp add: wf_buffer_def)
  have cnt': "unat (frame_cnt b + 1) = length h + 1"
    using cnt len by (simp add: unat_Suc64)
  have s: "?s = (length h + 1) mod 3"
    using cnt' by (simp add: buffer_to_write_to_def BUFFER_COUNT_def unat_mod_distrib)
  have nz: "frame_cnt b + 1 \<noteq> 0"
    using cnt' by auto
  have "slot_ok (h @ [(t, P)]) b' i" if i: "i < BUFFER_COUNT" for i
  proof (cases "i = ?s")
    case True
    show ?thesis
      unfolding True using S nz cnt' s P
      by (simp add: slot_ok_def BUFFER_COUNT_def)
  next
    case False
    have m: "metadata b' ! i = metadata b ! i"
      using W False by simp
    have img: "slot_image b' i = slot_image b i"
      using wf w i False by (rule slot_image_other)
    let ?u = "unat (frame_metadata_t.frame_uid (metadata b ! i))"
    from ok [OF i] have lock: "rwlock (metadata b ! i) = Unlocked"
      by (simp add: slot_ok_def)
    show ?thesis
    proof (cases "frame_metadata_t.frame_uid (metadata b ! i) = 0")
      case True
      with ok [OF i] have "length h < (if i = 0 then 3 else i)"
        by (auto simp: slot_ok_def BUFFER_COUNT_def split: if_splits)
      moreover have "i < 3" "i \<noteq> (length h + 1) mod 3"
        using False s i by (simp_all add: BUFFER_COUNT_def)
      ultimately have "length h + 1 < (if i = 0 then 3 else i)"
        by (rule next_slot_unwritten)
      with True lock show ?thesis
        by (auto simp: slot_ok_def m BUFFER_COUNT_def split: if_splits)
    next
      case uid: False
      then have u0: "?u \<noteq> 0" by (simp add: unat_eq_0)
      from ok [OF i] uid have u: "?u \<le> length h" "length h < ?u + 3" "?u mod 3 = i"
        "h ! (?u - 1) = (frame_metadata_t.acquisition_time (metadata b ! i), slot_image b i)"
        by (simp_all add: slot_ok_def BUFFER_COUNT_def)
      have "length h + 1 < ?u + 3"
      proof (rule ccontr)
        assume "\<not> length h + 1 < ?u + 3"
        with u(2) have "length h + 1 = ?u + 3" by simp
        then have "(length h + 1) mod 3 = ?u mod 3" by simp
        with s u(3) False show False by simp
      qed
      moreover have "?u - 1 < length h"
        using u(1) u0 by simp
      then have "(h @ [(t, P)]) ! (?u - 1) = h ! (?u - 1)"
        by (simp only: nth_append if_True)
      ultimately show ?thesis
        using uid lock u by (simp add: slot_ok_def m img BUFFER_COUNT_def)
    qed
  qed
  then show ?thesis
    using wf' cnt' G by (simp add: records_def)
qed

lemma publishes_records:
  assumes "records h b" "publishes b ps = Some b'" "length h + length ps < 2 ^ 64"
    "\<forall>tp\<in>set ps. length (snd tp) = unat (buffer_image_size b)"
  shows "records (h @ ps) b' \<and> buffer_image_size b' = buffer_image_size b"
  using assms
proof (induction ps arbitrary: h b)
  case Nil
  then show ?case by simp
next
  case (Cons tp ps)
  from Cons.prems(2) obtain b1 where
    w: "write_frame b (buffer_t.width b) (buffer_t.height b) (buffer_t.depth b) (fst tp) (snd tp)
          = Inr (SUCCESS, b1)" and p: "publishes b1 ps = Some b'"
    by (auto split: sum.splits if_splits)
  have g: "buffer_image_size b1 = buffer_image_size b"
    using w by (rule write_frame_SUCCESS_geometry)
  have "records (h @ [(fst tp, snd tp)]) b1"
    using Cons.prems(1) _ w
  proof (rule records_write_frame)
    show "length h + 1 < 2 ^ 64" using Cons.prems(3) by simp
    show "length (snd tp) = unat (buffer_image_size b)" using Cons.prems(4) by simp
  qed
  then have "records (h @ [tp]) b1"
    by simp
  then have "records ((h @ [tp]) @ ps) b' \<and> buffer_image_size b' = buffer_image_size b1"
    using p
  proof (rule Cons.IH)
    show "length (h @ [tp]) + length ps < 2 ^ 64" using Cons.prems(3) by simp
    show "\<forall>tp\<in>set ps. length (snd tp) = unat (buffer_image_size b1)"
      using Cons.prems(4) g by simp
  qed
  with g show ?case by simp
qed



lemma snapshotsD:
  "Some b' \<in> set (snapshots b ps) \<Longrightarrow> \<exists>n\<le>length ps. publishes b (take n ps) = Some b'"
proof -
  assume "Some b' \<in> set (snapshots b ps)"
  then obtain n where "n < Suc (length ps)" "publishes b (take n ps) = Some b'"
    by (auto simp: snapshots_def simp del: upt_Suc)
  then show ?thesis
    by (intro exI [of _ n]) simp
qed

lemma snapshot_records:
  assumes fits: "geometry_fits w h d"
    and pl: "\<forall>tp\<in>set ps. length (snd tp) = unat (w * h * d)"
    and len: "length ps < 2 ^ 64"
    and snap: "Some b' \<in> set (snapshots (new_region pid w h d) ps)"
  shows "\<exists>n\<le>length ps. publishes (new_region pid w h d) (take n ps) = Some b' \<and>
      records (take n ps) b'"
    "buffer_image_size b' = w * h * d"
proof -
  from snapshotsD [OF snap] obtain n where n: "n \<le> length ps"
    and p: "publishes (new_region pid w h d) (take n ps) = Some b'"
    by blast
  have s: "buffer_image_size (new_region pid w h d) = w * h * d"
    by (simp add: buffer_image_size_def new_region_def)
  have "records ([] @ take n ps) b' \<and>
      buffer_image_size b' = buffer_image_size (new_region pid w h d)"
    using records_new_region [OF fits] p
  proof (rule publishes_records)
    show "length [] + length (take n ps) < 2 ^ 64" using len by simp
    show "\<forall>tp\<in>set (take n ps). length (snd tp) = unat (buffer_image_size (new_region pid w h d))"
      using pl s by (auto dest: in_set_takeD)
  qed
  with n p s show "\<exists>n\<le>length ps. publishes (new_region pid w h d) (take n ps) = Some b' \<and>
      records (take n ps) b'"
    "buffer_image_size b' = w * h * d"
    by auto
qed



lemma copy_out_uid:
  "copy_out b' slot (resized b f) = Inr (SUCCESS, f') \<Longrightarrow>
   frame_t.frame_uid f' = frame_metadata_t.frame_uid (metadata b' ! slot)"
  by (auto simp: copy_out_resized split: if_splits)

lemma read_frame_SUCCESS_source:
  assumes "read_frame b f blk wakes = Inr (SUCCESS, f')"
  shows "\<exists>b'\<in>set (if frame_t.frame_uid f = frame_cnt b then wakes else b # wakes).
     frame_t.frame_uid f' = frame_metadata_t.frame_uid
       (metadata b' ! target_buffer (target_frame_uid (frame_cnt b) (frame_t.frame_uid f)))"
proof (cases "frame_t.frame_uid f = frame_cnt b")
  case False
  from read_frame_cases [OF assms] obtain b' where "b' \<in> set (b # wakes)"
    "Inr (SUCCESS, f') = copy_out b'
       (target_buffer (target_frame_uid (frame_cnt b) (frame_t.frame_uid f))) (resized b f)"
    by auto
  with False show ?thesis by (auto dest: copy_out_uid [OF sym])
next
  case True
  let ?s = "target_buffer (target_frame_uid (frame_cnt b) (frame_t.frame_uid f))"
  from assms True obtain b1 ws where w: "wakes = b1 # ws"
    and r: "read_locked ?s b1 ws (resized b f) = Inr (SUCCESS, f')"
    by (auto simp: read_frame_def resized_def Let_def simp del: read_locked.simps
        split: if_splits list.splits)
  from read_locked_cases [OF r] obtain b' where "b' \<in> set (b1 # ws)"
    "Inr (SUCCESS, f') = copy_out b' ?s (resized b f)"
    by auto
  with True w show ?thesis by (auto dest: copy_out_uid [OF sym])
qed

lemma newest_in_slot:
  fixes T u n :: nat
  assumes "T \<le> n" "n < u + 3" "u mod 3 = T mod 3"
  shows "T \<le> u"
proof (rule ccontr)
  assume "\<not> T \<le> u"
  then have lt: "u \<le> T" "u < T" by simp_all
  have "3 dvd T - u" using mod_eq_dvd_iff_nat [OF lt(1), of 3] assms(3) by simp
  moreover have "0 < T - u" using lt by simp
  ultimately have "3 \<le> T - u" by (rule dvd_imp_le)
  with assms(1,2) show False by simp
qed

lemma written_slot:
  fixes T n :: nat
  shows "1 \<le> T \<Longrightarrow> T \<le> n \<Longrightarrow> \<not> n < (if T mod 3 = 0 then 3 else T mod 3)"
  by presburger

text \<open>
  C7. Successive successful calls on one frame are to return strictly increasing uids
  (\<open>buffer.h\<close>: the frame read is newer than the one held). They do not always. The
  owner has published three frames; the consumer, whose frame holds uid 2, reads and
  gets uid 3. It calls again, blocking: it is caught up and waits. It is woken while the
  counter is still 3, as happens when the owner's broadcast for publish 3 is sent only
  after the consumer has read that frame (the counter is advanced in line 81, the
  broadcast follows in line 92), or when \<open>pthread_cond_wait\<close> returns spuriously. The
  call does not look for a new frame again: it returns \<open>SUCCESS\<close> with the content of
  slot 1, which is uid 1.
\<close>

theorem read_frame_stale_wakeup_returns_older_frame:
  "publishes (new_region 100 1 1 1) [(7, [1]), (8, [2]), (9, [3])] = Some region_3 \<and>
   read_frame region_3 frame_2 False [] = Inr (SUCCESS, frame_3) \<and>
   read_frame region_3 frame_3 True [region_3] = Inr (SUCCESS, frame_1) \<and>
   frame_t.frame_uid frame_3 = 3 \<and> frame_t.frame_uid frame_1 = 1"
  by code_simp

text \<open>
  Every other successful call does return a newer frame. Take a history of publishes as
  in C3, a consumer whose uid is not ahead of the counter, and a call during which the
  counter does not go down and which, if the consumer is caught up, wakes up only to a
  counter that has moved. If the call returns \<open>SUCCESS\<close>, the uid it returns is above the
  uid the frame held.
\<close>

lemma read_frame_newer:
  assumes fits: "geometry_fits w h d"
    and pl: "\<forall>tp\<in>set ps. length (snd tp) = unat (w * h * d)"
    and len: "length ps < 2 ^ 64"
    and obs: "\<forall>b'\<in>set (b # wakes). Some b' \<in> set (snapshots (new_region pid w h d) ps)"
    and mono: "\<forall>b'\<in>set wakes. frame_cnt b \<le> frame_cnt b'"
    and fresh: "frame_t.frame_uid f = frame_cnt b \<longrightarrow> (\<forall>b'\<in>set wakes. frame_cnt b' \<noteq> frame_cnt b)"
    and behind: "frame_t.frame_uid f \<le> frame_cnt b"
    and rd: "read_frame b f blk wakes = Inr (SUCCESS, f')"
  shows "frame_t.frame_uid f < frame_t.frame_uid f'"
proof -
  let ?T = "unat (target_frame_uid (frame_cnt b) (frame_t.frame_uid f))"
  let ?s = "target_buffer (target_frame_uid (frame_cnt b) (frame_t.frame_uid f))"
  let ?last = "unat (frame_t.frame_uid f)" and ?n = "unat (frame_cnt b)"
  from read_frame_SUCCESS_source [OF rd] obtain b' where
    b': "b' \<in> set (if frame_t.frame_uid f = frame_cnt b then wakes else b # wakes)"
    and u: "frame_t.frame_uid f' = frame_metadata_t.frame_uid (metadata b' ! ?s)"
    by blast
  let ?n' = "unat (frame_cnt b')" and ?u = "unat (frame_metadata_t.frame_uid (metadata b' ! ?s))"
  have "b' \<in> set (b # wakes)"
    using b' by (auto split: if_splits)
  with obs have "Some b' \<in> set (snapshots (new_region pid w h d) ps)"
    by blast
  from snapshot_records(1) [OF fits pl len this] obtain k where k: "k \<le> length ps"
    and r: "records (take k ps) b'"
    by blast
  from r k have n': "?n' = k" and ok: "slot_ok (take k ps) b' ?s"
    using target_buffer_less [of "target_frame_uid (frame_cnt b) (frame_t.frame_uid f)"]
    by (simp_all add: records_def)
  have bound: "?n' < 2 ^ 64"
    using n' k len by simp
  have le: "?last \<le> ?n"
    using behind by (simp add: word_le_nat_alt)
  have prog: "?n \<le> ?n' \<and> (?last = ?n \<longrightarrow> ?n < ?n')"
  proof (cases "frame_t.frame_uid f = frame_cnt b")
    case True
    with b' have w: "b' \<in> set wakes" by simp
    with mono have "?n \<le> ?n'" by (simp add: word_le_nat_alt)
    moreover from fresh True w have "frame_cnt b' \<noteq> frame_cnt b" by blast
    then have "?n' \<noteq> ?n" by (simp add: word_unat_eq_iff)
    ultimately show ?thesis by simp
  next
    case False
    then have ne: "?last \<noteq> ?n" by (simp add: word_unat_eq_iff)
    from b' False mono have "?n \<le> ?n'"
      by (auto simp: word_le_nat_alt)
    with ne show ?thesis by simp
  qed
  have ov: "?last + 1 < 2 ^ 64"
    using le prog bound by arith
  have T: "?T = (if ?n < 3 then ?last + 1 else max (?last + 1) (?n - 3 + 1))"
    using unat_target_frame_uid [OF ov, of "frame_cnt b"] by (simp add: BUFFER_COUNT_def)
  have T1: "?last < ?T" "1 \<le> ?T" "?T \<le> ?n'"
    using T le prog by (auto simp: max_def split: if_splits)
  have s: "?s = ?T mod 3"
    by (simp add: target_buffer_def unat_mod_distrib BUFFER_COUNT_def)
  have nz: "frame_metadata_t.frame_uid (metadata b' ! ?s) \<noteq> 0"
  proof
    assume "frame_metadata_t.frame_uid (metadata b' ! ?s) = 0"
    with ok k have "?n' < (if ?s = 0 then 3 else ?s)"
      by (auto simp: slot_ok_def BUFFER_COUNT_def n' split: if_splits)
    with written_slot [OF T1(2,3)] show False
      unfolding s by simp
  qed
  with ok k have slot: "?n' < ?u + 3" "?u mod 3 = ?s"
    by (simp_all add: slot_ok_def BUFFER_COUNT_def n')
  have m: "?u mod 3 = ?T mod 3"
    using slot(2) by (simp only: s)
  have "?T \<le> ?u"
    using T1(3) slot(1) m by (rule newest_in_slot)
  with T1(1) have "?last < ?u" by simp
  then show ?thesis
    by (simp add: u word_less_nat_alt)
qed

end
